theory Spec2Isabelle
  imports Main
begin

section \<open>The simplify-callexpr transformation\<close>

text \<open>
  A shallow embedding of \<^verbatim>\<open>SimplifyCallExpr.cpp\<close>: the visitor that selects the
  call expression number \<^verbatim>\<open>TransformationCounter\<close>, and the rewriter that turns the
  selected call into a comma expression. The members of the C++ object are the fields of
  one record, every member function takes the record and returns it updated, and the
  rewriter's buffer is the list of the edits made to it, in the order they were made.
\<close>

subsection \<open>Types of expressions\<close>

text \<open>
  The source asks three questions of a type (\<^verbatim>\<open>isVoidType\<close>, \<^verbatim>\<open>isUnionType\<close>,
  \<^verbatim>\<open>isStructureType\<close>) and prints it. A type is therefore its class and its spelling.
\<close>

datatype TypeClass = VoidClass | StructureClass | UnionClass | OtherClass

datatype QualType = QualType (getTypePtr: TypeClass) (getAsString: string)

definition isVoidType :: "QualType \<Rightarrow> bool" where
  "isVoidType T = (getTypePtr T = VoidClass)"

definition isUnionType :: "QualType \<Rightarrow> bool" where
  "isUnionType T = (getTypePtr T = UnionClass)"

definition isStructureType :: "QualType \<Rightarrow> bool" where
  "isStructureType T = (getTypePtr T = StructureClass)"

text \<open>
  Modelled from the spec: \<^verbatim>\<open>QualType::getAsStringInternal\<close> belongs to the compiler
  front end and is not part of the source file. The spec gives the text of a declaration
  as \<^verbatim>\<open><type> <name>;\<close>, so printing a type around a declarator name puts the type's
  spelling and one space before the name.
\<close>

definition getAsStringInternal :: "QualType \<Rightarrow> string \<Rightarrow> string" where
  "getAsStringInternal T Str = getAsString T @ '' '' @ Str"

subsection \<open>The syntax tree\<close>

text \<open>
  A function declaration is known by where it begins in the buffer and by whether it is a
  definition; a call expression has a source range, a type (the callee's return type), a
  callee and its arguments. Every other expression has a type and children, every other
  node has children only. Declarations may occur below statements (a local prototype, a
  member function of a local class), so a \<open>FunctionDeclNode\<close> may occur anywhere.
\<close>

type_synonym SourceLocation = nat
type_synonym SourceRange = "nat \<times> nat"

datatype FunctionDecl =
  FunctionDecl (getBeginLoc: SourceLocation) (isThisDeclarationADefinition: bool)

datatype CallExpr = CallExpr SourceRange QualType Expr "Expr list"
  and Expr = Call CallExpr | OtherExpr QualType "Node list"
  and Node = ExprNode Expr | FunctionDeclNode FunctionDecl "Node list" | OtherNode "Node list"

fun getSourceRange :: "CallExpr \<Rightarrow> SourceRange" where
  "getSourceRange (CallExpr R T Callee Args) = R"

fun getCallType :: "CallExpr \<Rightarrow> QualType" where
  "getCallType (CallExpr R T Callee Args) = T"

fun getArgs :: "CallExpr \<Rightarrow> Expr list" where
  "getArgs (CallExpr R T Callee Args) = Args"

definition getNumArgs :: "CallExpr \<Rightarrow> nat" where
  "getNumArgs CE = length (getArgs CE)"

fun getType :: "Expr \<Rightarrow> QualType" where
  "getType (Call CE) = getCallType CE"
| "getType (OtherExpr T Children) = T"

subsection \<open>The rewriter's buffer\<close>

text \<open>
  Modelled from the spec: \<^verbatim>\<open>RewriteUtils\<close> is not part of the source file. The spec
  describes its two services as \<^verbatim>\<open>replace(byteRange, text)\<close> and
  \<^verbatim>\<open>insertBefore(declarationAnchor, text)\<close>; the buffer is the list of these edits,
  each in terms of the locations of the unedited text.
\<close>

datatype Edit = ReplaceText SourceRange string | InsertTextBefore SourceLocation string

datatype TransErrorCode = TransSuccess | TransInternalError | TransMaxInstanceError

record SimplifyCallExpr =
  QueryInstanceOnly :: bool
  TransformationCounter :: nat
  ValidInstanceNum :: nat
  TransError :: TransErrorCode
  TheCallExpr :: "CallExpr option"
  CurrentFD :: "FunctionDecl option"
  NamePostfix :: nat
  TheRewriter :: "Edit list"
  VisitorCurrentFD :: "FunctionDecl option"

definition replaceExpr :: "CallExpr \<Rightarrow> string \<Rightarrow> SimplifyCallExpr \<Rightarrow> SimplifyCallExpr" where
  "replaceExpr CE Str s = s\<lparr>TheRewriter := TheRewriter s @ [ReplaceText (getSourceRange CE) Str]\<rparr>"

definition insertStringBeforeFunc ::
  "FunctionDecl \<Rightarrow> string \<Rightarrow> SimplifyCallExpr \<Rightarrow> SimplifyCallExpr" where
  "insertStringBeforeFunc FD Str s =
     s\<lparr>TheRewriter := TheRewriter s @ [InsertTextBefore (getBeginLoc FD) Str]\<rparr>"

subsection \<open>Names of temporary variables\<close>

text \<open>
  Modelled from the spec: \<^verbatim>\<open>RewriteUtils::getTmpVarNamePrefix\<close>,
  \<^verbatim>\<open>RewriteUtils::getTmpTransName\<close> and \<^verbatim>\<open>TransNameQueryWrap\<close> are not part of the
  source file, and neither is the declaration of the counter \<^verbatim>\<open>NamePostfix\<close>. The spec
  writes a generated name as \<^verbatim>\<open>tmp_var_N\<close>, and describes the query as a scan of the
  identifiers that share the prefix, returning the maximum numeric suffix seen. The
  counter is a natural number here: the spec gives it no width.
\<close>

definition TmpVarNamePrefix :: string where
  "TmpVarNamePrefix = ''tmp_var_''"

definition digit_char :: "nat \<Rightarrow> char" where
  "digit_char d = char_of (48 + d)"

fun decimal :: "nat \<Rightarrow> string" where
  "decimal n = (if n < 10 then [digit_char n] else decimal (n div 10) @ [digit_char (n mod 10)])"

definition getTmpTransName :: "nat \<Rightarrow> string" where
  "getTmpTransName Postfix = TmpVarNamePrefix @ decimal Postfix"

definition is_digit :: "char \<Rightarrow> bool" where
  "is_digit c = (48 \<le> (of_char c :: nat) \<and> (of_char c :: nat) \<le> 57)"

definition digit_value :: "char \<Rightarrow> nat" where
  "digit_value c = of_char c - 48"

definition read_decimal :: "string \<Rightarrow> nat option" where
  "read_decimal cs =
     (if cs \<noteq> [] \<and> list_all is_digit cs
      then Some (foldl (\<lambda>acc c. 10 * acc + digit_value c) 0 cs) else None)"

definition name_postfix :: "string \<Rightarrow> nat option" where
  "name_postfix Name =
     (if take (length TmpVarNamePrefix) Name = TmpVarNamePrefix
      then read_decimal (drop (length TmpVarNamePrefix) Name) else None)"

definition getMaxNamePostfix :: "string list \<Rightarrow> nat" where
  "getMaxNamePostfix Names =
     fold (\<lambda>Name m. case name_postfix Name of None \<Rightarrow> m | Some v \<Rightarrow> max v m) Names 0"

subsection \<open>The selector\<close>

definition VisitCallExpr :: "CallExpr \<Rightarrow> SimplifyCallExpr \<Rightarrow> SimplifyCallExpr" where
  "VisitCallExpr CE s =
     (let s1 = s\<lparr>ValidInstanceNum := ValidInstanceNum s + 1\<rparr>
      in if TransformationCounter s1 \<noteq> ValidInstanceNum s1 then s1
         else s1\<lparr>TheCallExpr := Some CE, CurrentFD := VisitorCurrentFD s1\<rparr>)"

definition VisitFunctionDecl :: "FunctionDecl \<Rightarrow> SimplifyCallExpr \<Rightarrow> SimplifyCallExpr" where
  "VisitFunctionDecl FD s = s\<lparr>VisitorCurrentFD := Some FD\<rparr>"

text \<open>
  The walk of \<^verbatim>\<open>RecursiveASTVisitor\<close>: a node is visited before its children, the
  children from left to right. Both visit functions of the source return true, so the walk
  is never cut short.
\<close>

fun TraverseCallExpr :: "CallExpr \<Rightarrow> SimplifyCallExpr \<Rightarrow> SimplifyCallExpr"
  and TraverseExpr :: "Expr \<Rightarrow> SimplifyCallExpr \<Rightarrow> SimplifyCallExpr"
  and TraverseExprs :: "Expr list \<Rightarrow> SimplifyCallExpr \<Rightarrow> SimplifyCallExpr"
  and TraverseNode :: "Node \<Rightarrow> SimplifyCallExpr \<Rightarrow> SimplifyCallExpr"
  and TraverseNodes :: "Node list \<Rightarrow> SimplifyCallExpr \<Rightarrow> SimplifyCallExpr" where
  "TraverseCallExpr (CallExpr R T Callee Args) s =
     TraverseExprs Args (TraverseExpr Callee (VisitCallExpr (CallExpr R T Callee Args) s))"
| "TraverseExpr (Call CE) s = TraverseCallExpr CE s"
| "TraverseExpr (OtherExpr T Children) s = TraverseNodes Children s"
| "TraverseExprs [] s = s"
| "TraverseExprs (E # Es) s = TraverseExprs Es (TraverseExpr E s)"
| "TraverseNode (ExprNode E) s = TraverseExpr E s"
| "TraverseNode (FunctionDeclNode FD Children) s = TraverseNodes Children (VisitFunctionDecl FD s)"
| "TraverseNode (OtherNode Children) s = TraverseNodes Children s"
| "TraverseNodes [] s = s"
| "TraverseNodes (N # Ns) s = TraverseNodes Ns (TraverseNode N s)"

fun HandleTopLevelDecl :: "Node list \<Rightarrow> SimplifyCallExpr \<Rightarrow> SimplifyCallExpr" where
  "HandleTopLevelDecl [] s = s"
| "HandleTopLevelDecl (FunctionDeclNode FD Children # D) s =
     HandleTopLevelDecl D
       (if isThisDeclarationADefinition FD then TraverseNode (FunctionDeclNode FD Children) s else s)"
| "HandleTopLevelDecl (I # D) s = HandleTopLevelDecl D s"

subsection \<open>The rewriter\<close>

text \<open>
  The rewriter reads the members \<^verbatim>\<open>TheCallExpr\<close> and \<^verbatim>\<open>CurrentFD\<close>, which
  \<^verbatim>\<open>HandleTranslationUnit\<close> has asserted to be set; here they are the parameters
  \<open>CE\<close> and \<open>FD\<close>. An out-parameter of type string is a component of the result.
  \<open>handleRestArgs\<close> is the loop over the arguments after the first, and
  \<open>handleReturnValue\<close> the branch on the return type that follows it.
\<close>

definition handleOneArgStr ::
  "Expr \<Rightarrow> FunctionDecl \<Rightarrow> SimplifyCallExpr \<Rightarrow> string \<times> SimplifyCallExpr" where
  "handleOneArgStr Arg FD s =
     (let ArgT = getType Arg
      in if \<not> isUnionType ArgT \<and> \<not> isStructureType ArgT then (''0'', s)
         else
           let Str = getTmpTransName (NamePostfix s);
               s1 = s\<lparr>NamePostfix := NamePostfix s + 1\<rparr>;
               TmpVarStr = getAsStringInternal ArgT Str @ '';\<newline>''
           in (Str, insertStringBeforeFunc FD TmpVarStr s1))"

fun handleRestArgs ::
  "Expr list \<Rightarrow> FunctionDecl \<Rightarrow> string \<Rightarrow> SimplifyCallExpr \<Rightarrow> string \<times> SimplifyCallExpr" where
  "handleRestArgs [] FD CommaStr s = (CommaStr, s)"
| "handleRestArgs (Arg # Args) FD CommaStr s =
     (case handleOneArgStr Arg FD s of
        (ArgStr, s1) \<Rightarrow> handleRestArgs Args FD (CommaStr @ '','' @ ArgStr) s1)"

definition handleReturnValue ::
  "QualType \<Rightarrow> FunctionDecl \<Rightarrow> string \<Rightarrow> SimplifyCallExpr \<Rightarrow> string \<times> SimplifyCallExpr" where
  "handleReturnValue RVQualType FD CommaStr s =
     (if isVoidType RVQualType then (CommaStr, s)
      else if isUnionType RVQualType \<or> isStructureType RVQualType then
        let RVStr = getTmpTransName (NamePostfix s);
            s1 = s\<lparr>NamePostfix := NamePostfix s + 1\<rparr>
        in (CommaStr @ '','' @ RVStr,
            insertStringBeforeFunc FD (getAsStringInternal RVQualType RVStr @ '';\<newline>'') s1)
      else (CommaStr @ '',0'', s))"

definition replaceCallExpr :: "CallExpr \<Rightarrow> FunctionDecl \<Rightarrow> SimplifyCallExpr \<Rightarrow> SimplifyCallExpr" where
  "replaceCallExpr CE FD s =
     (case getArgs CE of
        [] \<Rightarrow> replaceExpr CE '''' s
      | Arg0 # Args \<Rightarrow>
          (case handleOneArgStr Arg0 FD s of
             (ArgStr, s1) \<Rightarrow>
               (case handleRestArgs Args FD (''('' @ ArgStr) s1 of
                  (CommaStr, s2) \<Rightarrow>
                    (case handleReturnValue (getCallType CE) FD CommaStr s2 of
                       (CommaStr', s3) \<Rightarrow> replaceExpr CE (CommaStr' @ '')'') s3))))"

subsection \<open>The run\<close>

datatype Abort = AssertionFailure string

text \<open>
  \<^verbatim>\<open>HandleTranslationUnit\<close> reads two things of the translation unit that the source
  file does not compute: the identifiers scanned by the name query, and whether the
  diagnostics engine has recorded an error once the rewrite is done. Both are parameters.
  A failed \<^verbatim>\<open>TransAssert\<close> ends the run.
\<close>

definition HandleTranslationUnit ::
  "string list \<Rightarrow> bool \<Rightarrow> SimplifyCallExpr \<Rightarrow> Abort + SimplifyCallExpr" where
  "HandleTranslationUnit Names hasErrorOccurred s =
     (if QueryInstanceOnly s then Inr s
      else if TransformationCounter s > ValidInstanceNum s
      then Inr (s\<lparr>TransError := TransMaxInstanceError\<rparr>)
      else
        (case TheCallExpr s of
           None \<Rightarrow> Inl (AssertionFailure ''NULL TheCallExpr!'')
         | Some CE \<Rightarrow>
             (case CurrentFD s of
                None \<Rightarrow> Inl (AssertionFailure ''NULL CurrentFD'')
              | Some FD \<Rightarrow>
                  let s1 = s\<lparr>NamePostfix := getMaxNamePostfix Names + 1\<rparr>;
                      s2 = replaceCallExpr CE FD s1
                  in Inr (if hasErrorOccurred then s2\<lparr>TransError := TransInternalError\<rparr> else s2))))"

text \<open>
  Modelled from the spec: the constructor and the declarations of the members are in the
  header, which is not part of the source file. By the spec a run starts with nothing
  counted, nothing selected and an unedited buffer, and the assertions of
  \<^verbatim>\<open>HandleTranslationUnit\<close> test the two selection members against null. The mode
  and the target ordinal come from the caller; the two counts are natural numbers here.
\<close>

definition initial :: "bool \<Rightarrow> nat \<Rightarrow> SimplifyCallExpr" where
  "initial Query Counter =
     \<lparr>QueryInstanceOnly = Query, TransformationCounter = Counter, ValidInstanceNum = 0,
      TransError = TransSuccess, TheCallExpr = None, CurrentFD = None, NamePostfix = 0,
      TheRewriter = [], VisitorCurrentFD = None\<rparr>"

text \<open>
  The front end hands the top-level declaration groups to \<^verbatim>\<open>HandleTopLevelDecl\<close> one
  by one, in source order, and calls \<^verbatim>\<open>HandleTranslationUnit\<close> at the end.
\<close>

definition collect :: "Node list list \<Rightarrow> SimplifyCallExpr \<Rightarrow> SimplifyCallExpr" where
  "collect Groups s = fold HandleTopLevelDecl Groups s"

definition run ::
  "bool \<Rightarrow> nat \<Rightarrow> string list \<Rightarrow> bool \<Rightarrow> Node list list \<Rightarrow> Abort + SimplifyCallExpr" where
  "run Query Counter Names hasErrorOccurred Groups =
     HandleTranslationUnit Names hasErrorOccurred (collect Groups (initial Query Counter))"

section \<open>The vocabulary of the properties\<close>

subsection \<open>Call expressions in traversal order\<close>

text \<open>
  What the walk meets, in the order it meets it: the call expressions and the function
  declarations, a node before its children. These lists are defined on the tree alone,
  without the visitor's state.
\<close>

datatype Event = CallEvent CallExpr | DeclEvent FunctionDecl

fun eventsCallExpr :: "CallExpr \<Rightarrow> Event list"
  and eventsExpr :: "Expr \<Rightarrow> Event list"
  and eventsExprs :: "Expr list \<Rightarrow> Event list"
  and eventsNode :: "Node \<Rightarrow> Event list"
  and eventsNodes :: "Node list \<Rightarrow> Event list" where
  "eventsCallExpr (CallExpr R T Callee Args) =
     CallEvent (CallExpr R T Callee Args) # eventsExpr Callee @ eventsExprs Args"
| "eventsExpr (Call CE) = eventsCallExpr CE"
| "eventsExpr (OtherExpr T Children) = eventsNodes Children"
| "eventsExprs [] = []"
| "eventsExprs (E # Es) = eventsExpr E @ eventsExprs Es"
| "eventsNode (ExprNode E) = eventsExpr E"
| "eventsNode (FunctionDeclNode FD Children) = DeclEvent FD # eventsNodes Children"
| "eventsNode (OtherNode Children) = eventsNodes Children"
| "eventsNodes [] = []"
| "eventsNodes (N # Ns) = eventsNode N @ eventsNodes Ns"

fun eventsTopLevel :: "Node list \<Rightarrow> Event list" where
  "eventsTopLevel [] = []"
| "eventsTopLevel (FunctionDeclNode FD Children # D) =
     (if isThisDeclarationADefinition FD then eventsNode (FunctionDeclNode FD Children) else [])
     @ eventsTopLevel D"
| "eventsTopLevel (I # D) = eventsTopLevel D"

definition eventsTU :: "Node list list \<Rightarrow> Event list" where
  "eventsTU Groups = concat (map eventsTopLevel Groups)"

fun visit :: "Event \<Rightarrow> SimplifyCallExpr \<Rightarrow> SimplifyCallExpr" where
  "visit (CallEvent CE) s = VisitCallExpr CE s"
| "visit (DeclEvent FD) s = VisitFunctionDecl FD s"

fun callsOf :: "Event list \<Rightarrow> CallExpr list" where
  "callsOf [] = []"
| "callsOf (CallEvent CE # Es) = CE # callsOf Es"
| "callsOf (DeclEvent FD # Es) = callsOf Es"

text \<open>The call expressions of the function definitions of a translation unit, as visited.\<close>

definition callExprsTU :: "Node list list \<Rightarrow> CallExpr list" where
  "callExprsTU Groups = callsOf (eventsTU Groups)"

text \<open>
  The function declaration met last before the call number \<open>k\<close> (counted from 0) of a
  list of events, \<open>cur\<close> when there is none.
\<close>

fun visitorFDAt :: "Event list \<Rightarrow> nat \<Rightarrow> FunctionDecl option \<Rightarrow> FunctionDecl option" where
  "visitorFDAt [] k cur = cur"
| "visitorFDAt (CallEvent CE # es) k cur = (if k = 0 then cur else visitorFDAt es (k - 1) cur)"
| "visitorFDAt (DeclEvent FD # es) k cur = visitorFDAt es k (Some FD)"

fun declFirst :: "Event list \<Rightarrow> bool" where
  "declFirst [] = True"
| "declFirst (DeclEvent FD # es) = True"
| "declFirst (CallEvent CE # es) = False"

subsection \<open>The text of a comma expression\<close>

text \<open>
  The spec's words for the rewriter: an operand of struct or union type is a temporary
  variable with a declaration \<^verbatim>\<open><type> <name>;\<close>, any other operand is \<^verbatim>\<open>0\<close>, and
  the operands are joined with commas. \<open>N\<close> is the name counter before the operand.
\<close>

definition isAggregate :: "QualType \<Rightarrow> bool" where
  "isAggregate T = (isUnionType T \<or> isStructureType T)"

fun operandTexts :: "nat \<Rightarrow> QualType list \<Rightarrow> string list" where
  "operandTexts N [] = []"
| "operandTexts N (T # Ts) =
     (if isAggregate T then getTmpTransName N # operandTexts (N + 1) Ts
      else ''0'' # operandTexts N Ts)"

fun declarationTexts :: "nat \<Rightarrow> QualType list \<Rightarrow> string list" where
  "declarationTexts N [] = []"
| "declarationTexts N (T # Ts) =
     (if isAggregate T
      then (getAsString T @ '' '' @ getTmpTransName N @ '';\<newline>'') # declarationTexts (N + 1) Ts
      else declarationTexts N Ts)"

fun tempNames :: "nat \<Rightarrow> QualType list \<Rightarrow> string list" where
  "tempNames N [] = []"
| "tempNames N (T # Ts) =
     (if isAggregate T then getTmpTransName N # tempNames (N + 1) Ts else tempNames N Ts)"

fun comma_tail :: "string list \<Rightarrow> string" where
  "comma_tail [] = []"
| "comma_tail (x # xs) = '','' @ x @ comma_tail xs"

fun comma_sep :: "string list \<Rightarrow> string" where
  "comma_sep [] = []"
| "comma_sep (x # xs) = x @ comma_tail xs"

text \<open>The number of comma-separated operands of a text: none in the empty text.\<close>

definition operand_count :: "string \<Rightarrow> nat" where
  "operand_count Str = (if Str = [] then 0 else Suc (length (filter (\<lambda>c. c = CHR '','') Str)))"

text \<open>
  The types of the operands of a call with arguments: those of the arguments, then the
  return type unless it is void.
\<close>

definition operandTypes :: "CallExpr \<Rightarrow> QualType list" where
  "operandTypes CE =
     map getType (getArgs CE) @ (if isVoidType (getCallType CE) then [] else [getCallType CE])"

definition rewriteTypes :: "CallExpr \<Rightarrow> QualType list" where
  "rewriteTypes CE = (if getArgs CE = [] then [] else operandTypes CE)"

definition replacementText :: "nat \<Rightarrow> CallExpr \<Rightarrow> string" where
  "replacementText N CE =
     (if getArgs CE = [] then [] else ''('' @ comma_sep (operandTexts N (operandTypes CE)) @ '')'')"

definition max_step :: "string \<Rightarrow> nat \<Rightarrow> nat" where
  "max_step Name m = (case name_postfix Name of None \<Rightarrow> m | Some v \<Rightarrow> max v m)"

subsection \<open>Edits and source ranges\<close>




subsection \<open>Example programs\<close>

definition int_type :: QualType where
  "int_type = QualType OtherClass ''int''"

definition int_ptr_type :: QualType where
  "int_ptr_type = QualType OtherClass ''int *''"

definition void_type :: QualType where
  "void_type = QualType VoidClass ''void''"

definition struct_Z :: QualType where
  "struct_Z = QualType StructureClass ''struct Z''"

definition struct_W :: QualType where
  "struct_W = QualType StructureClass ''struct W''"

definition name_ref :: "QualType \<Rightarrow> Expr" where
  "name_ref T = OtherExpr T []"

definition callee :: Expr where
  "callee = OtherExpr (QualType OtherClass ''function pointer'') []"

text \<open>\<^verbatim>\<open>foo(i, p, s)\<close> at bytes 40 to 52, \<^verbatim>\<open>foo\<close> returning \<^verbatim>\<open>int\<close>.\<close>

definition call_foo :: CallExpr where
  "call_foo = CallExpr (40, 52) int_type callee
     [name_ref int_type, name_ref int_ptr_type, name_ref struct_Z]"

text \<open>\<^verbatim>\<open>get()\<close> returning \<^verbatim>\<open>int\<close>, \<^verbatim>\<open>make()\<close> returning \<^verbatim>\<open>struct W\<close>, \<^verbatim>\<open>tick()\<close> and \<^verbatim>\<open>put(1)\<close> returning \<^verbatim>\<open>void\<close>.\<close>

definition call_get :: CallExpr where
  "call_get = CallExpr (20, 25) int_type callee []"

definition call_make :: CallExpr where
  "call_make = CallExpr (20, 26) struct_W callee []"

definition call_tick :: CallExpr where
  "call_tick = CallExpr (20, 26) void_type callee []"

definition call_put :: CallExpr where
  "call_put = CallExpr (30, 36) void_type callee [name_ref int_type]"

text \<open>\<^verbatim>\<open>outer(inner())\<close>: the inner call lies within the bytes of the outer one.\<close>

definition call_inner :: CallExpr where
  "call_inner = CallExpr (16, 23) int_type callee []"

definition call_outer :: CallExpr where
  "call_outer = CallExpr (10, 24) int_type callee [Call call_inner]"

definition fd_main :: FunctionDecl where
  "fd_main = FunctionDecl 0 True"

definition unit_of :: "CallExpr \<Rightarrow> Node list list" where
  "unit_of CE = [[FunctionDeclNode fd_main [OtherNode [ExprNode (Call CE)]]]]"

text \<open>
  \<^verbatim>\<open>int f(void) { int g(struct Z); struct Z s; return g(s); }\<close>: the prototype of
  \<^verbatim>\<open>g\<close> is a declaration inside the body of \<^verbatim>\<open>f\<close>, at byte 14.
\<close>

definition fd_local_prototype :: FunctionDecl where
  "fd_local_prototype = FunctionDecl 14 False"

definition call_g :: CallExpr where
  "call_g = CallExpr (50, 54) int_type callee [name_ref struct_Z]"

definition unit_local_prototype :: "Node list list" where
  "unit_local_prototype =
     [[FunctionDeclNode fd_main
         [OtherNode
            [OtherNode [FunctionDeclNode fd_local_prototype []],
             OtherNode [],
             OtherNode [ExprNode (Call call_g)]]]]]"

subsection \<open>The enclosing function\<close>

text \<open>
  The spec's words: the function that encloses a call expression is the innermost function
  definition whose body contains it. For every call expression of a node, in traversal
  order, the functions below give that definition; \<open>cur\<close> is the innermost definition
  around the node. They are defined on the tree alone, without the visitor's state.
\<close>

fun enclosingCallExpr :: "FunctionDecl option \<Rightarrow> CallExpr \<Rightarrow> FunctionDecl option list"
  and enclosingExpr :: "FunctionDecl option \<Rightarrow> Expr \<Rightarrow> FunctionDecl option list"
  and enclosingExprs :: "FunctionDecl option \<Rightarrow> Expr list \<Rightarrow> FunctionDecl option list"
  and enclosingNode :: "FunctionDecl option \<Rightarrow> Node \<Rightarrow> FunctionDecl option list"
  and enclosingNodes :: "FunctionDecl option \<Rightarrow> Node list \<Rightarrow> FunctionDecl option list" where
  "enclosingCallExpr cur (CallExpr R T Callee Args) =
     cur # enclosingExpr cur Callee @ enclosingExprs cur Args"
| "enclosingExpr cur (Call CE) = enclosingCallExpr cur CE"
| "enclosingExpr cur (OtherExpr T Children) = enclosingNodes cur Children"
| "enclosingExprs cur [] = []"
| "enclosingExprs cur (E # Es) = enclosingExpr cur E @ enclosingExprs cur Es"
| "enclosingNode cur (ExprNode E) = enclosingExpr cur E"
| "enclosingNode cur (FunctionDeclNode FD Children) =
     enclosingNodes (if isThisDeclarationADefinition FD then Some FD else cur) Children"
| "enclosingNode cur (OtherNode Children) = enclosingNodes cur Children"
| "enclosingNodes cur [] = []"
| "enclosingNodes cur (N # Ns) = enclosingNode cur N @ enclosingNodes cur Ns"

fun enclosingTopLevel :: "Node list \<Rightarrow> FunctionDecl option list" where
  "enclosingTopLevel [] = []"
| "enclosingTopLevel (FunctionDeclNode FD Children # D) =
     (if isThisDeclarationADefinition FD
      then enclosingNode None (FunctionDeclNode FD Children) else [])
     @ enclosingTopLevel D"
| "enclosingTopLevel (I # D) = enclosingTopLevel D"

text \<open>
  The enclosing functions of the call expressions of a translation unit, in the order of
  \<open>callExprsTU\<close>.
\<close>

definition enclosingFunctions :: "Node list list \<Rightarrow> FunctionDecl option list" where
  "enclosingFunctions Groups = concat (map enclosingTopLevel Groups)"








subsection \<open>More example programs\<close>

definition union_U :: QualType where
  "union_U = QualType UnionClass ''union U''"

text \<open>
  \<^verbatim>\<open>int f(void) { int g(int); ... foo(i, p, s); }\<close>: the call of scenario A at bytes
  60 to 72, after a prototype declared at byte 14 of the body.
\<close>

definition call_foo_late :: CallExpr where
  "call_foo_late = CallExpr (60, 72) int_type callee
     [name_ref int_type, name_ref int_ptr_type, name_ref struct_Z]"

definition unit_foo_after_prototype :: "Node list list" where
  "unit_foo_after_prototype =
     [[FunctionDeclNode fd_main
         [OtherNode
            [OtherNode [FunctionDeclNode fd_local_prototype []],
             OtherNode [ExprNode (Call call_foo_late)]]]]]"

text \<open>
  \<^verbatim>\<open>void f(void) { int g(int); ... h(u, 1, s); }\<close> with \<^verbatim>\<open>u\<close> a \<^verbatim>\<open>union U\<close>
  and \<^verbatim>\<open>s\<close> a \<^verbatim>\<open>struct Z\<close>, \<^verbatim>\<open>h\<close> returning void.
\<close>

definition call_h :: CallExpr where
  "call_h = CallExpr (60, 70) void_type callee
     [name_ref union_U, name_ref int_type, name_ref struct_Z]"

definition unit_h_after_prototype :: "Node list list" where
  "unit_h_after_prototype =
     [[FunctionDeclNode fd_main
         [OtherNode
            [OtherNode [FunctionDeclNode fd_local_prototype []],
             OtherNode [ExprNode (Call call_h)]]]]]"



section \<open>Lemmas\<close>

declare decimal.simps [simp del]

subsection \<open>The walk as a list of events\<close>

lemma Traverse_events:
  "TraverseCallExpr CE s = fold visit (eventsCallExpr CE) s"
  "TraverseExpr E s = fold visit (eventsExpr E) s"
  "TraverseExprs Es s = fold visit (eventsExprs Es) s"
  "TraverseNode N s = fold visit (eventsNode N) s"
  "TraverseNodes Ns s = fold visit (eventsNodes Ns) s"
  by (induction CE s and E s and Es s and N s and Ns s
      rule: TraverseCallExpr_TraverseExpr_TraverseExprs_TraverseNode_TraverseNodes.induct)
     simp_all

lemma HandleTopLevelDecl_events: "HandleTopLevelDecl D s = fold visit (eventsTopLevel D) s"
  by (induction D s rule: HandleTopLevelDecl.induct) (simp_all add: Traverse_events)

lemma collect_events: "collect Groups s = fold visit (eventsTU Groups) s"
  unfolding collect_def eventsTU_def
  by (induction Groups arbitrary: s) (simp_all add: HandleTopLevelDecl_events)

lemma visit_frame:
  "TransformationCounter (visit e s) = TransformationCounter s"
  "QueryInstanceOnly (visit e s) = QueryInstanceOnly s"
  "TransError (visit e s) = TransError s"
  "NamePostfix (visit e s) = NamePostfix s"
  "TheRewriter (visit e s) = TheRewriter s"
  by (cases e; simp add: VisitCallExpr_def VisitFunctionDecl_def Let_def)+

lemma fold_visit_frame:
  "TransformationCounter (fold visit es s) = TransformationCounter s"
  "QueryInstanceOnly (fold visit es s) = QueryInstanceOnly s"
  "TransError (fold visit es s) = TransError s"
  "NamePostfix (fold visit es s) = NamePostfix s"
  "TheRewriter (fold visit es s) = TheRewriter s"
  by (induction es arbitrary: s; simp add: visit_frame)+

lemma fold_visit_count:
  "ValidInstanceNum (fold visit es s) = ValidInstanceNum s + length (callsOf es)"
  by (induction es arbitrary: s rule: callsOf.induct)
     (simp_all add: VisitCallExpr_def VisitFunctionDecl_def Let_def)

lemma fold_visit_not_selected:
  "TransformationCounter s \<le> ValidInstanceNum s \<or>
   ValidInstanceNum s + length (callsOf es) < TransformationCounter s \<Longrightarrow>
   TheCallExpr (fold visit es s) = TheCallExpr s \<and> CurrentFD (fold visit es s) = CurrentFD s"
  by (induction es arbitrary: s rule: callsOf.induct)
     (auto simp add: VisitCallExpr_def VisitFunctionDecl_def Let_def)

lemma fold_visit_selected:
  "ValidInstanceNum s < TransformationCounter s \<Longrightarrow>
   TransformationCounter s \<le> ValidInstanceNum s + length (callsOf es) \<Longrightarrow>
   TheCallExpr (fold visit es s) =
     Some (callsOf es ! (TransformationCounter s - ValidInstanceNum s - 1)) \<and>
   CurrentFD (fold visit es s) =
     visitorFDAt es (TransformationCounter s - ValidInstanceNum s - 1) (VisitorCurrentFD s)"
proof (induction es arbitrary: s rule: callsOf.induct)
  case 1
  then show ?case by simp
next
  case (2 CE Es)
  show ?case
  proof (cases "TransformationCounter s = ValidInstanceNum s + 1")
    case True
    let ?s1 = "VisitCallExpr CE s"
    have sel: "TheCallExpr ?s1 = Some CE" "CurrentFD ?s1 = VisitorCurrentFD s"
      "TransformationCounter ?s1 \<le> ValidInstanceNum ?s1"
      using True by (simp_all add: VisitCallExpr_def Let_def)
    from fold_visit_not_selected[of ?s1 Es] sel show ?thesis
      using True by simp
  next
    case False
    let ?s1 = "VisitCallExpr CE s"
    have s1: "ValidInstanceNum ?s1 = ValidInstanceNum s + 1"
      "TransformationCounter ?s1 = TransformationCounter s"
      "VisitorCurrentFD ?s1 = VisitorCurrentFD s"
      by (simp_all add: VisitCallExpr_def Let_def)
    have "ValidInstanceNum ?s1 < TransformationCounter ?s1"
      "TransformationCounter ?s1 \<le> ValidInstanceNum ?s1 + length (callsOf Es)"
      using "2.prems" False s1 by simp_all
    from "2.IH"[OF this] show ?thesis
      using s1 False "2.prems" by (simp add: nth_Cons')
  qed
next
  case (3 FD Es)
  let ?s1 = "VisitFunctionDecl FD s"
  have s1: "ValidInstanceNum ?s1 = ValidInstanceNum s"
    "TransformationCounter ?s1 = TransformationCounter s"
    "VisitorCurrentFD ?s1 = Some FD"
    by (simp_all add: VisitFunctionDecl_def)
  have "ValidInstanceNum ?s1 < TransformationCounter ?s1"
    "TransformationCounter ?s1 \<le> ValidInstanceNum ?s1 + length (callsOf Es)"
    using "3.prems" s1 by simp_all
  from "3.IH"[OF this] show ?case using s1 by simp
qed

lemma declFirst_append: "declFirst xs \<Longrightarrow> declFirst ys \<Longrightarrow> declFirst (xs @ ys)"
  by (cases xs rule: declFirst.cases) simp_all

lemma declFirst_eventsTopLevel: "declFirst (eventsTopLevel D)"
  by (induction D rule: eventsTopLevel.induct) simp_all

lemma declFirst_eventsTU: "declFirst (eventsTU Groups)"
  unfolding eventsTU_def
  by (induction Groups) (simp_all add: declFirst_append declFirst_eventsTopLevel)

lemma visitorFDAt_Some:
  "k < length (callsOf es) \<Longrightarrow> cur \<noteq> None \<Longrightarrow> visitorFDAt es k cur \<noteq> None"
  by (induction es k cur rule: visitorFDAt.induct) auto

lemma visitorFDAt_declFirst:
  "declFirst es \<Longrightarrow> k < length (callsOf es) \<Longrightarrow> visitorFDAt es k cur \<noteq> None"
  by (cases es rule: declFirst.cases) (simp_all add: visitorFDAt_Some)

subsection \<open>The rewriter in the spec's words\<close>

lemma comma_tail_append: "comma_tail (xs @ ys) = comma_tail xs @ comma_tail ys"
  by (induction xs) simp_all

lemma handleOneArgStr_eq:
  "handleOneArgStr Arg FD s =
     (hd (operandTexts (NamePostfix s) [getType Arg]),
      s\<lparr>NamePostfix := NamePostfix s + length (filter isAggregate [getType Arg]),
        TheRewriter := TheRewriter s @
          map (InsertTextBefore (getBeginLoc FD)) (declarationTexts (NamePostfix s) [getType Arg])\<rparr>)"
  by (simp add: handleOneArgStr_def isAggregate_def insertStringBeforeFunc_def
      getAsStringInternal_def Let_def)

lemma handleRestArgs_eq:
  "handleRestArgs Args FD CommaStr s =
     (CommaStr @ comma_tail (operandTexts (NamePostfix s) (map getType Args)),
      s\<lparr>NamePostfix := NamePostfix s + length (filter isAggregate (map getType Args)),
        TheRewriter := TheRewriter s @
          map (InsertTextBefore (getBeginLoc FD))
            (declarationTexts (NamePostfix s) (map getType Args))\<rparr>)"
proof (induction Args arbitrary: CommaStr s)
  case Nil
  show ?case by simp
next
  case (Cons Arg Args)
  show ?case
    by (simp add: handleOneArgStr_eq Cons.IH)
qed

lemma operandTexts_append:
  "operandTexts N (Ts @ Us) = operandTexts N Ts @ operandTexts (N + length (filter isAggregate Ts)) Us"
  by (induction Ts arbitrary: N) simp_all

lemma declarationTexts_append:
  "declarationTexts N (Ts @ Us) =
     declarationTexts N Ts @ declarationTexts (N + length (filter isAggregate Ts)) Us"
  by (induction Ts arbitrary: N) simp_all

lemma handleReturnValue_eq:
  "handleReturnValue RV FD CommaStr s =
     (CommaStr @ comma_tail (operandTexts (NamePostfix s) (if isVoidType RV then [] else [RV])),
      s\<lparr>NamePostfix := NamePostfix s + length (filter isAggregate (if isVoidType RV then [] else [RV])),
        TheRewriter := TheRewriter s @
          map (InsertTextBefore (getBeginLoc FD))
            (declarationTexts (NamePostfix s) (if isVoidType RV then [] else [RV]))\<rparr>)"
  by (simp add: handleReturnValue_def isAggregate_def insertStringBeforeFunc_def
      getAsStringInternal_def Let_def)

lemma replaceCallExpr_args:
  assumes "getArgs CE \<noteq> []"
  shows "replaceCallExpr CE FD s =
     s\<lparr>NamePostfix := NamePostfix s + length (filter isAggregate (operandTypes CE)),
       TheRewriter := TheRewriter s @
         map (InsertTextBefore (getBeginLoc FD)) (declarationTexts (NamePostfix s) (operandTypes CE)) @
         [ReplaceText (getSourceRange CE)
            (''('' @ comma_sep (operandTexts (NamePostfix s) (operandTypes CE)) @ '')'')]\<rparr>"
proof -
  from assms obtain Arg0 Args where args: "getArgs CE = Arg0 # Args"
    by (cases "getArgs CE") auto
  let ?T0 = "getType Arg0"
  let ?Ts = "map getType Args"
  let ?R = "if isVoidType (getCallType CE) then [] else [getCallType CE]"
  have ty: "operandTypes CE = [?T0] @ ?Ts @ ?R"
    by (simp add: operandTypes_def args)
  show ?thesis
    unfolding ty operandTexts_append declarationTexts_append
    apply (simp only: replaceCallExpr_def args list.case handleOneArgStr_eq handleRestArgs_eq
        handleReturnValue_eq prod.case replaceExpr_def)
    apply (cases "isAggregate ?T0")
     apply (simp_all add: comma_tail_append)
    done
qed

subsection \<open>Decimal names\<close>

lemma is_digit_digit_char: "d < 10 \<Longrightarrow> is_digit (digit_char d)"
  by (simp add: is_digit_def digit_char_def)

lemma digit_value_digit_char: "d < 10 \<Longrightarrow> digit_value (digit_char d) = d"
  by (simp add: digit_value_def digit_char_def)

lemma decimal_not_Nil: "decimal n \<noteq> []"
  by (subst decimal.simps) simp

lemma decimal_digits: "list_all is_digit (decimal n)"
proof (induction n rule: decimal.induct)
  case (1 n)
  show ?case
  proof (cases "n < 10")
    case True
    then show ?thesis by (subst decimal.simps) (simp add: is_digit_digit_char)
  next
    case False
    with 1 show ?thesis by (subst decimal.simps) (simp add: is_digit_digit_char)
  qed
qed

lemma decimal_value: "foldl (\<lambda>acc c. 10 * acc + digit_value c) 0 (decimal n) = n"
proof (induction n rule: decimal.induct)
  case (1 n)
  show ?case
  proof (cases "n < 10")
    case True
    then show ?thesis by (subst decimal.simps) (simp add: digit_value_digit_char)
  next
    case False
    with 1 show ?thesis by (subst decimal.simps) (simp add: digit_value_digit_char)
  qed
qed

lemma read_decimal_decimal: "read_decimal (decimal n) = Some n"
  by (simp add: read_decimal_def decimal_not_Nil decimal_digits decimal_value)

lemma take_prefix: "take (length xs) (xs @ ys) = xs"
  by simp

lemma drop_prefix: "drop (length xs) (xs @ ys) = ys"
  by simp

lemma name_postfix_getTmpTransName: "name_postfix (getTmpTransName n) = Some n"
  unfolding name_postfix_def getTmpTransName_def
  by (simp only: take_prefix drop_prefix read_decimal_decimal refl if_True)

lemma getTmpTransName_inj: "getTmpTransName m = getTmpTransName n \<Longrightarrow> m = n"
proof -
  assume eq: "getTmpTransName m = getTmpTransName n"
  have "Some m = name_postfix (getTmpTransName m)"
    by (simp only: name_postfix_getTmpTransName)
  also have "\<dots> = name_postfix (getTmpTransName n)"
    by (simp only: eq)
  also have "\<dots> = Some n"
    by (simp only: name_postfix_getTmpTransName)
  finally show "m = n" by simp
qed

lemma fold_max_step_ge: "m \<le> fold max_step Names m"
proof (induction Names arbitrary: m)
  case Nil
  show ?case by simp
next
  case (Cons a Names)
  have "m \<le> max_step a m" by (simp add: max_step_def split: option.split)
  also have "\<dots> \<le> fold max_step Names (max_step a m)" by (rule Cons.IH)
  finally show ?case by simp
qed

lemma fold_max_step_bound:
  "Name \<in> set Names \<Longrightarrow> name_postfix Name = Some v \<Longrightarrow> v \<le> fold max_step Names m"
proof (induction Names arbitrary: m)
  case Nil
  then show ?case by simp
next
  case (Cons a Names)
  show ?case
  proof (cases "Name = a")
    case True
    with Cons.prems have "v \<le> max_step a m" by (simp add: max_step_def)
    also have "\<dots> \<le> fold max_step Names (max_step a m)" by (rule fold_max_step_ge)
    finally show ?thesis by simp
  next
    case False
    with Cons.prems have "Name \<in> set Names" by simp
    from Cons.IH[OF this Cons.prems(2)] show ?thesis by simp
  qed
qed

lemma getMaxNamePostfix_bound:
  "Name \<in> set Names \<Longrightarrow> name_postfix Name = Some v \<Longrightarrow> v \<le> getMaxNamePostfix Names"
proof -
  have "getMaxNamePostfix Names = fold max_step Names 0"
    unfolding getMaxNamePostfix_def max_step_def ..
  then show "Name \<in> set Names \<Longrightarrow> name_postfix Name = Some v \<Longrightarrow> v \<le> getMaxNamePostfix Names"
    by (simp add: fold_max_step_bound)
qed

lemma getTmpTransName_fresh:
  "getMaxNamePostfix Names < n \<Longrightarrow> getTmpTransName n \<notin> set Names"
  using getMaxNamePostfix_bound[OF _ name_postfix_getTmpTransName, of n Names] by auto

lemma is_digit_not_comma: "is_digit c \<Longrightarrow> c \<noteq> CHR '',''"
  by (auto simp add: is_digit_def)

lemma comma_notin_getTmpTransName: "CHR '','' \<notin> set (getTmpTransName n)"
  using decimal_digits[of n]
  by (auto simp add: getTmpTransName_def TmpVarNamePrefix_def list_all_iff dest: is_digit_not_comma)

subsection \<open>The whole rewrite, operands and names\<close>

lemma replaceCallExpr_eq:
  "replaceCallExpr CE FD s =
     s\<lparr>NamePostfix := NamePostfix s + length (filter isAggregate (rewriteTypes CE)),
       TheRewriter := TheRewriter s @
         map (InsertTextBefore (getBeginLoc FD)) (declarationTexts (NamePostfix s) (rewriteTypes CE)) @
         [ReplaceText (getSourceRange CE) (replacementText (NamePostfix s) CE)]\<rparr>"
proof (cases "getArgs CE = []")
  case True
  then show ?thesis
    by (simp add: replaceCallExpr_def replaceExpr_def rewriteTypes_def replacementText_def)
next
  case False
  then show ?thesis
    by (simp add: replaceCallExpr_args rewriteTypes_def replacementText_def)
qed

lemma length_operandTexts: "length (operandTexts N Ts) = length Ts"
  by (induction Ts arbitrary: N) simp_all

lemma operandTexts_comma_free: "x \<in> set (operandTexts N Ts) \<Longrightarrow> CHR '','' \<notin> set x"
  by (induction Ts arbitrary: N) (auto simp add: comma_notin_getTmpTransName split: if_splits)

lemma commas_comma_tail:
  "(\<And>x. x \<in> set xs \<Longrightarrow> CHR '','' \<notin> set x) \<Longrightarrow>
   length (filter (\<lambda>c. c = CHR '','') (comma_tail xs)) = length xs"
proof (induction xs)
  case Nil
  show ?case by simp
next
  case (Cons x xs)
  have "filter (\<lambda>c. c = CHR '','') x = []"
    using Cons.prems[of x] by (auto simp add: filter_empty_conv)
  moreover have "length (filter (\<lambda>c. c = CHR '','') (comma_tail xs)) = length xs"
    using Cons.prems by (intro Cons.IH) simp
  ultimately show ?case by simp
qed

lemma operand_count_comma_sep:
  assumes "xs \<noteq> []" and "\<And>x. x \<in> set xs \<Longrightarrow> CHR '','' \<notin> set x"
  shows "operand_count (''('' @ comma_sep xs @ '')'') = length xs"
proof -
  from assms(1) obtain y ys where xs: "xs = y # ys" by (cases xs) auto
  have "filter (\<lambda>c. c = CHR '','') y = []"
    using assms(2)[of y] xs by (auto simp add: filter_empty_conv)
  moreover have "length (filter (\<lambda>c. c = CHR '','') (comma_tail ys)) = length ys"
    using assms(2) xs by (intro commas_comma_tail) simp
  ultimately show ?thesis
    by (simp add: operand_count_def xs)
qed

lemma tempNames_eq:
  "tempNames N Ts = map getTmpTransName [N ..< N + length (filter isAggregate Ts)]"
proof (induction Ts arbitrary: N)
  case Nil
  show ?case by simp
next
  case (Cons T Ts)
  show ?case
  proof (cases "isAggregate T")
    case True
    have "[N ..< N + length (filter isAggregate (T # Ts))] =
      N # [N + 1 ..< N + 1 + length (filter isAggregate Ts)]"
      using True by (subst upt_rec) simp
    then show ?thesis
      using True by (simp only: tempNames.simps if_True Cons.IH list.map)
  next
    case False
    then show ?thesis by (simp add: Cons.IH)
  qed
qed

lemma length_tempNames: "length (tempNames N Ts) = length (filter isAggregate Ts)"
  by (induction Ts arbitrary: N) simp_all

lemma declarationTexts_tempNames:
  "declarationTexts N Ts =
     map2 (\<lambda>T Name. getAsString T @ '' '' @ Name @ '';\<newline>'') (filter isAggregate Ts) (tempNames N Ts)"
  by (induction Ts arbitrary: N) simp_all

lemma distinct_tempNames: "distinct (tempNames N Ts)"
  unfolding tempNames_eq
  by (simp add: distinct_map inj_on_def getTmpTransName_inj)

lemma tempNames_postfix:
  "Name \<in> set (tempNames N Ts) \<Longrightarrow> \<exists>k. N \<le> k \<and> Name = getTmpTransName k"
  unfolding tempNames_eq by auto

subsection \<open>The run\<close>

lemma initial_fields:
  "QueryInstanceOnly (initial Query K) = Query"
  "TransformationCounter (initial Query K) = K"
  "ValidInstanceNum (initial Query K) = 0"
  "TransError (initial Query K) = TransSuccess"
  "TheCallExpr (initial Query K) = None"
  "CurrentFD (initial Query K) = None"
  "NamePostfix (initial Query K) = 0"
  "TheRewriter (initial Query K) = []"
  "VisitorCurrentFD (initial Query K) = None"
  by (simp_all add: initial_def)

lemma collect_frame:
  "QueryInstanceOnly (collect Groups (initial Query K)) = Query"
  "TransformationCounter (collect Groups (initial Query K)) = K"
  "TransError (collect Groups (initial Query K)) = TransSuccess"
  "NamePostfix (collect Groups (initial Query K)) = 0"
  "TheRewriter (collect Groups (initial Query K)) = []"
  by (simp_all add: collect_events fold_visit_frame initial_fields)

lemma collect_count:
  "ValidInstanceNum (collect Groups (initial Query K)) = length (callExprsTU Groups)"
  by (simp add: collect_events fold_visit_count initial_fields callExprsTU_def)

lemma collect_selected:
  assumes "0 < K" and "K \<le> length (callExprsTU Groups)"
  shows "TheCallExpr (collect Groups (initial Query K)) = Some (callExprsTU Groups ! (K - 1))"
    and "CurrentFD (collect Groups (initial Query K)) = visitorFDAt (eventsTU Groups) (K - 1) None"
    and "visitorFDAt (eventsTU Groups) (K - 1) None \<noteq> None"
proof -
  let ?s = "initial Query K"
  have a: "ValidInstanceNum ?s < TransformationCounter ?s"
    using assms(1) by (simp add: initial_fields)
  have b: "TransformationCounter ?s \<le> ValidInstanceNum ?s + length (callsOf (eventsTU Groups))"
    using assms(2) by (simp add: initial_fields callExprsTU_def)
  from fold_visit_selected[OF a b]
  show "TheCallExpr (collect Groups ?s) = Some (callExprsTU Groups ! (K - 1))"
    and "CurrentFD (collect Groups ?s) = visitorFDAt (eventsTU Groups) (K - 1) None"
    by (simp_all add: collect_events initial_fields callExprsTU_def)
  have "K - 1 < length (callsOf (eventsTU Groups))"
    using assms by (simp add: callExprsTU_def)
  then show "visitorFDAt (eventsTU Groups) (K - 1) None \<noteq> None"
    by (rule visitorFDAt_declFirst[OF declFirst_eventsTU])
qed

lemma collect_not_selected:
  assumes "length (callExprsTU Groups) < K"
  shows "TheCallExpr (collect Groups (initial Query K)) = None"
  using fold_visit_not_selected[of "initial Query K" "eventsTU Groups"] assms
  by (simp add: collect_events initial_fields callExprsTU_def)

lemma run_in_range:
  assumes "\<not> Query" and "0 < K" and "K \<le> length (callExprsTU Groups)"
  shows "\<exists>FD s'. run Query K Names hasErrorOccurred Groups = Inr s' \<and>
     visitorFDAt (eventsTU Groups) (K - 1) None = Some FD \<and>
     TheCallExpr s' = Some (callExprsTU Groups ! (K - 1)) \<and>
     CurrentFD s' = Some FD \<and>
     ValidInstanceNum s' = length (callExprsTU Groups) \<and>
     NamePostfix s' = getMaxNamePostfix Names + 1 +
       length (filter isAggregate (rewriteTypes (callExprsTU Groups ! (K - 1)))) \<and>
     TheRewriter s' =
       map (InsertTextBefore (getBeginLoc FD))
         (declarationTexts (getMaxNamePostfix Names + 1) (rewriteTypes (callExprsTU Groups ! (K - 1)))) @
       [ReplaceText (getSourceRange (callExprsTU Groups ! (K - 1)))
          (replacementText (getMaxNamePostfix Names + 1) (callExprsTU Groups ! (K - 1)))] \<and>
     TransError s' = (if hasErrorOccurred then TransInternalError else TransSuccess)"
proof -
  let ?c = "collect Groups (initial Query K)"
  from collect_selected(3)[OF assms(2,3)] obtain FD
    where FD: "visitorFDAt (eventsTU Groups) (K - 1) None = Some FD" by auto
  have sel: "TheCallExpr ?c = Some (callExprsTU Groups ! (K - 1))" "CurrentFD ?c = Some FD"
    using collect_selected(1,2)[OF assms(2,3), of Query] FD by simp_all
  have cnt: "\<not> ValidInstanceNum ?c < TransformationCounter ?c"
    using assms(3) by (simp add: collect_count collect_frame)
  have q: "\<not> QueryInstanceOnly ?c"
    using assms(1) by (simp add: collect_frame)
  let ?s2 = "replaceCallExpr (callExprsTU Groups ! (K - 1)) FD
    (?c\<lparr>NamePostfix := getMaxNamePostfix Names + 1\<rparr>)"
  let ?s' = "if hasErrorOccurred then ?s2\<lparr>TransError := TransInternalError\<rparr> else ?s2"
  have run_eq: "run Query K Names hasErrorOccurred Groups = Inr ?s'"
    unfolding run_def HandleTranslationUnit_def
    by (simp only: q cnt sel if_False option.case Let_def)
  have fields: "TheCallExpr ?s2 = Some (callExprsTU Groups ! (K - 1))" "CurrentFD ?s2 = Some FD"
    "ValidInstanceNum ?s2 = length (callExprsTU Groups)"
    "NamePostfix ?s2 = getMaxNamePostfix Names + 1 +
       length (filter isAggregate (rewriteTypes (callExprsTU Groups ! (K - 1))))"
    "TheRewriter ?s2 =
       map (InsertTextBefore (getBeginLoc FD))
         (declarationTexts (getMaxNamePostfix Names + 1) (rewriteTypes (callExprsTU Groups ! (K - 1)))) @
       [ReplaceText (getSourceRange (callExprsTU Groups ! (K - 1)))
          (replacementText (getMaxNamePostfix Names + 1) (callExprsTU Groups ! (K - 1)))]"
    "TransError ?s2 = TransSuccess"
    by (simp_all add: replaceCallExpr_eq sel collect_count collect_frame)
  have "TheCallExpr ?s' = Some (callExprsTU Groups ! (K - 1))" "CurrentFD ?s' = Some FD"
    "ValidInstanceNum ?s' = length (callExprsTU Groups)"
    "NamePostfix ?s' = getMaxNamePostfix Names + 1 +
       length (filter isAggregate (rewriteTypes (callExprsTU Groups ! (K - 1))))"
    "TheRewriter ?s' =
       map (InsertTextBefore (getBeginLoc FD))
         (declarationTexts (getMaxNamePostfix Names + 1) (rewriteTypes (callExprsTU Groups ! (K - 1)))) @
       [ReplaceText (getSourceRange (callExprsTU Groups ! (K - 1)))
          (replacementText (getMaxNamePostfix Names + 1) (callExprsTU Groups ! (K - 1)))]"
    "TransError ?s' = (if hasErrorOccurred then TransInternalError else TransSuccess)"
    using fields by (cases hasErrorOccurred; simp)+
  with run_eq FD show ?thesis by blast
qed

subsection \<open>The recorded function and the enclosing function\<close>









lemma operandTexts_nth:
  "i < length Ts \<Longrightarrow>
   operandTexts N Ts ! i =
     (if isAggregate (Ts ! i)
      then getTmpTransName (N + length (filter isAggregate (take i Ts))) else ''0'')"
proof (induction Ts arbitrary: N i)
  case Nil
  then show ?case by simp
next
  case (Cons T Ts)
  show ?case
  proof (cases i)
    case 0
    then show ?thesis by simp
  next
    case (Suc j)
    with Cons.prems have "j < length Ts" by simp
    from Cons.IH[OF this] show ?thesis
      using Suc by simp
  qed
qed

subsection \<open>The rewriter on given arguments\<close>

lemma scenario_A:
  "replaceCallExpr
     (CallExpr R int_type Callee
        [OtherExpr int_type C1, OtherExpr int_ptr_type C2, OtherExpr struct_Z C3]) FD s =
   s\<lparr>NamePostfix := NamePostfix s + 1,
     TheRewriter := TheRewriter s @
       [InsertTextBefore (getBeginLoc FD) (''struct Z '' @ getTmpTransName (NamePostfix s) @ '';\<newline>''),
        ReplaceText R (''(0,0,'' @ getTmpTransName (NamePostfix s) @ '',0)'')]\<rparr>"
  by (simp add: int_type_def int_ptr_type_def struct_Z_def
      isVoidType_def isUnionType_def isStructureType_def
      replaceCallExpr_def replaceExpr_def handleOneArgStr_def handleReturnValue_def
      insertStringBeforeFunc_def getAsStringInternal_def Let_def)

lemma handleOneArgStr_classification:
  "handleOneArgStr Arg FD s =
     (if isStructureType (getType Arg) \<or> isUnionType (getType Arg)
      then (getTmpTransName (NamePostfix s),
            s\<lparr>NamePostfix := NamePostfix s + 1,
              TheRewriter := TheRewriter s @
                [InsertTextBefore (getBeginLoc FD)
                   (getAsString (getType Arg) @ '' '' @ getTmpTransName (NamePostfix s) @ '';\<newline>'')]\<rparr>)
      else (''0'', s))"
  by (auto simp add: handleOneArgStr_def insertStringBeforeFunc_def getAsStringInternal_def Let_def)

section \<open>Properties\<close>

text \<open>
  C1. The claim: a selected call with no arguments and a return type other than void is
  replaced with a parenthesised result, \<^verbatim>\<open>(0)\<close> for a scalar return type and
  \<^verbatim>\<open>(tmp_var_N)\<close> with one declaration for a struct or union. The source returns
  from \<^verbatim>\<open>replaceCallExpr\<close> as soon as the call has no arguments, before it looks at the
  return type: \<^verbatim>\<open>get()\<close> returning \<^verbatim>\<open>int\<close> and \<^verbatim>\<open>make()\<close> returning
  \<^verbatim>\<open>struct W\<close> are both replaced with the empty string, no declaration is inserted and
  no name is allocated.
\<close>

theorem zero_args_nonvoid_replaced_by_empty:
  "\<not> isVoidType (getCallType call_get) \<and> \<not> isVoidType (getCallType call_make) \<and>
   getNumArgs call_get = 0 \<and> getNumArgs call_make = 0 \<and>
   replaceCallExpr call_get fd_main (initial False 1) =
     (initial False 1)\<lparr>TheRewriter := [ReplaceText (20, 25) '''']\<rparr> \<and>
   replaceCallExpr call_make fd_main (initial False 1) =
     (initial False 1)\<lparr>TheRewriter := [ReplaceText (20, 26) '''']\<rparr>"
  by code_simp

text \<open>
  C2, as the claim states it, fails: \<^verbatim>\<open>put(1)\<close> returns void and has one argument, it is
  not the call without arguments that the claim excepts, and its replacement \<^verbatim>\<open>(0)\<close>
  has one operand, not the two of one argument and one result.
\<close>

theorem void_call_with_argument_has_no_result_operand:
  "getNumArgs call_put = 1 \<and> isVoidType (getCallType call_put) \<and>
   TheRewriter (replaceCallExpr call_put fd_main (initial False 1)) =
     [ReplaceText (30, 36) ''(0)''] \<and>
   operand_count ''(0)'' \<noteq> getNumArgs call_put + 1"
  by code_simp

text \<open>
  C2, amended. A selected call with at least one argument is replaced with a parenthesised
  comma expression of one operand for each argument, followed by one result operand when
  the return type is not void and by none when it is void; every edit before that
  replacement is an insertion before the recorded function. A selected call with no
  arguments and return type void is replaced with the empty string.
\<close>

theorem comma_expression_operands:
  "(0 < getNumArgs CE \<longrightarrow>
      TheRewriter (replaceCallExpr CE FD s) =
        TheRewriter s @
        map (InsertTextBefore (getBeginLoc FD)) (declarationTexts (NamePostfix s) (operandTypes CE)) @
        [ReplaceText (getSourceRange CE)
           (''('' @ comma_sep (operandTexts (NamePostfix s) (operandTypes CE)) @ '')'')] \<and>
      length (operandTexts (NamePostfix s) (operandTypes CE)) =
        getNumArgs CE + (if isVoidType (getCallType CE) then 0 else 1) \<and>
      operand_count (''('' @ comma_sep (operandTexts (NamePostfix s) (operandTypes CE)) @ '')'') =
        getNumArgs CE + (if isVoidType (getCallType CE) then 0 else 1)) \<and>
   (getNumArgs CE = 0 \<and> isVoidType (getCallType CE) \<longrightarrow>
      TheRewriter (replaceCallExpr CE FD s) =
        TheRewriter s @ [ReplaceText (getSourceRange CE) ''''])"
proof (intro conjI impI)
  assume "getNumArgs CE = 0 \<and> isVoidType (getCallType CE)"
  then show "TheRewriter (replaceCallExpr CE FD s) =
      TheRewriter s @ [ReplaceText (getSourceRange CE) '''']"
    by (simp add: replaceCallExpr_def getNumArgs_def replaceExpr_def)
next
  assume pos: "0 < getNumArgs CE"
  then have args: "getArgs CE \<noteq> []"
    by (simp add: getNumArgs_def)
  show "TheRewriter (replaceCallExpr CE FD s) =
        TheRewriter s @
        map (InsertTextBefore (getBeginLoc FD)) (declarationTexts (NamePostfix s) (operandTypes CE)) @
        [ReplaceText (getSourceRange CE)
           (''('' @ comma_sep (operandTexts (NamePostfix s) (operandTypes CE)) @ '')'')]"
    by (simp add: replaceCallExpr_args[OF args])
  show len: "length (operandTexts (NamePostfix s) (operandTypes CE)) =
        getNumArgs CE + (if isVoidType (getCallType CE) then 0 else 1)"
    by (simp add: length_operandTexts operandTypes_def getNumArgs_def)
  have "operandTexts (NamePostfix s) (operandTypes CE) \<noteq> []"
    using len pos by auto
  from operand_count_comma_sep[OF this operandTexts_comma_free]
  show "operand_count (''('' @ comma_sep (operandTexts (NamePostfix s) (operandTypes CE)) @ '')'') =
        getNumArgs CE + (if isVoidType (getCallType CE) then 0 else 1)"
    using len by simp
qed

text \<open>
  The amended C2 at \<^verbatim>\<open>foo(i, p, s)\<close>, which has three arguments and returns
  \<^verbatim>\<open>int\<close>: four operands.
\<close>

theorem comma_expression_operands_witness:
  "TheRewriter (replaceCallExpr call_foo fd_main (initial False 1)) =
     TheRewriter (initial False 1) @
     map (InsertTextBefore (getBeginLoc fd_main))
       (declarationTexts (NamePostfix (initial False 1)) (operandTypes call_foo)) @
     [ReplaceText (getSourceRange call_foo)
        (''('' @ comma_sep (operandTexts (NamePostfix (initial False 1)) (operandTypes call_foo)) @ '')'')] \<and>
   length (operandTexts (NamePostfix (initial False 1)) (operandTypes call_foo)) =
     getNumArgs call_foo + (if isVoidType (getCallType call_foo) then 0 else 1) \<and>
   operand_count
     (''('' @ comma_sep (operandTexts (NamePostfix (initial False 1)) (operandTypes call_foo)) @ '')'') =
     getNumArgs call_foo + (if isVoidType (getCallType call_foo) then 0 else 1)"
proof -
  have pos: "0 < getNumArgs call_foo"
    by code_simp
  from comma_expression_operands[of call_foo fd_main "initial False 1", THEN conjunct1, THEN mp, OF pos]
  show ?thesis .
qed

text \<open>
  C3. The claim: for \<^verbatim>\<open>foo(i, p, s)\<close> with \<^verbatim>\<open>foo\<close> returning \<^verbatim>\<open>int\<close>,
  \<^verbatim>\<open>i\<close> an \<^verbatim>\<open>int\<close>, \<^verbatim>\<open>p\<close> an \<^verbatim>\<open>int *\<close> and \<^verbatim>\<open>s\<close> a
  \<^verbatim>\<open>struct Z\<close>, the declaration \<^verbatim>\<open>struct Z tmp_var_N;\<close> is inserted before the
  enclosing function and the call is replaced with \<^verbatim>\<open>(0,0,tmp_var_N,0)\<close>. In
  \<^verbatim>\<open>int f(void) { int g(int); ... foo(i, p, s); }\<close> the call is the first call
  expression and its enclosing function is \<^verbatim>\<open>f\<close>, which begins at byte 0. The run
  replaces the call with \<^verbatim>\<open>(0,0,tmp_var_1,0)\<close>, but inserts the declaration at byte
  14, where the prototype of \<^verbatim>\<open>g\<close> begins, inside the body of \<^verbatim>\<open>f\<close>.
\<close>

theorem scenario_A_after_local_prototype:
  "callExprsTU unit_foo_after_prototype = [call_foo_late] \<and>
   getArgs call_foo_late = [name_ref int_type, name_ref int_ptr_type, name_ref struct_Z] \<and>
   getCallType call_foo_late = int_type \<and>
   enclosingFunctions unit_foo_after_prototype = [Some fd_main] \<and>
   getBeginLoc fd_main = 0 \<and>
   (case run False 1 [] False unit_foo_after_prototype of
      Inl a \<Rightarrow> [] | Inr s' \<Rightarrow> TheRewriter s') =
     [InsertTextBefore 14 ''struct Z tmp_var_1;\<newline>'', ReplaceText (60, 72) ''(0,0,tmp_var_1,0)'']"
  by code_simp

text \<open>
  C4. The claim: for every argument of the selected call, a struct or union argument has
  a fresh temporary name as its operand and a declaration \<^verbatim>\<open><type> <name>;\<close> inserted
  before the enclosing function, and any other argument has the operand \<^verbatim>\<open>0\<close> and no
  declaration. In \<^verbatim>\<open>void f(void) { int g(int); ... h(u, 1, s); }\<close> with \<^verbatim>\<open>u\<close> a
  \<^verbatim>\<open>union U\<close> and \<^verbatim>\<open>s\<close> a \<^verbatim>\<open>struct Z\<close> the operands are \<^verbatim>\<open>tmp_var_1\<close>,
  \<^verbatim>\<open>0\<close> and \<^verbatim>\<open>tmp_var_2\<close> and the two declarations have the types of the
  arguments, but both are inserted at byte 14, where the prototype of \<^verbatim>\<open>g\<close> begins,
  inside the body of the enclosing function \<^verbatim>\<open>f\<close>, which begins at byte 0.
\<close>

theorem aggregate_arguments_after_local_prototype:
  "callExprsTU unit_h_after_prototype = [call_h] \<and>
   map getType (getArgs call_h) = [union_U, int_type, struct_Z] \<and>
   enclosingFunctions unit_h_after_prototype = [Some fd_main] \<and>
   getBeginLoc fd_main = 0 \<and>
   (case run False 1 [] False unit_h_after_prototype of
      Inl a \<Rightarrow> [] | Inr s' \<Rightarrow> TheRewriter s') =
     [InsertTextBefore 14 ''union U tmp_var_1;\<newline>'',
      InsertTextBefore 14 ''struct Z tmp_var_2;\<newline>'',
      ReplaceText (60, 70) ''(tmp_var_1,0,tmp_var_2)'']"
  by code_simp

text \<open>
  C5. A selected call with no arguments and return type void is replaced with the empty
  string, and no declaration is inserted: the only edit is that replacement.
\<close>

theorem replaceCallExpr_void_no_args:
  "getNumArgs CE = 0 \<Longrightarrow> isVoidType (getCallType CE) \<Longrightarrow>
   replaceCallExpr CE FD s = s\<lparr>TheRewriter := TheRewriter s @ [ReplaceText (getSourceRange CE) '''']\<rparr>"
  by (simp add: replaceCallExpr_def getNumArgs_def replaceExpr_def)

text \<open>C5 at \<^verbatim>\<open>tick()\<close>, which has no arguments and returns void.\<close>

theorem replaceCallExpr_void_no_args_witness:
  "replaceCallExpr call_tick fd_main (initial False 1) =
     (initial False 1)\<lparr>TheRewriter :=
        TheRewriter (initial False 1) @ [ReplaceText (getSourceRange call_tick) '''']\<rparr>"
proof -
  have h1: "getNumArgs call_tick = 0"
    by code_simp
  have h2: "isVoidType (getCallType call_tick)"
    by code_simp
  from replaceCallExpr_void_no_args[OF h1 h2] show ?thesis .
qed

text \<open>
  C6. In every run that reaches the rewrite, the counter is seeded one past the maximum
  suffix found by the name query and goes up by one for every name generated; the
  declarations inserted are those of the generated names, in order; the generated names
  are pairwise distinct; and each of them is none of the scanned identifiers and has a
  numeric suffix greater than the maximum suffix among them.
\<close>

theorem generated_names_fresh:
  assumes "\<not> Query" and "0 < K" and "K \<le> length (callExprsTU Groups)"
  shows "\<exists>s' FD. run Query K Names hasErrorOccurred Groups = Inr s' \<and>
     CurrentFD s' = Some FD \<and>
     NamePostfix s' = getMaxNamePostfix Names + 1 +
       length (tempNames (getMaxNamePostfix Names + 1) (rewriteTypes (callExprsTU Groups ! (K - 1)))) \<and>
     TheRewriter s' =
       map (InsertTextBefore (getBeginLoc FD))
         (map2 (\<lambda>T Name. getAsString T @ '' '' @ Name @ '';\<newline>'')
            (filter isAggregate (rewriteTypes (callExprsTU Groups ! (K - 1))))
            (tempNames (getMaxNamePostfix Names + 1) (rewriteTypes (callExprsTU Groups ! (K - 1))))) @
       [ReplaceText (getSourceRange (callExprsTU Groups ! (K - 1)))
          (replacementText (getMaxNamePostfix Names + 1) (callExprsTU Groups ! (K - 1)))] \<and>
     distinct (tempNames (getMaxNamePostfix Names + 1) (rewriteTypes (callExprsTU Groups ! (K - 1)))) \<and>
     (\<forall>Name \<in> set (tempNames (getMaxNamePostfix Names + 1)
                       (rewriteTypes (callExprsTU Groups ! (K - 1)))).
        Name \<notin> set Names \<and>
        (\<exists>k. name_postfix Name = Some k \<and> getMaxNamePostfix Names < k))"
proof -
  let ?N = "getMaxNamePostfix Names + 1"
  let ?Ts = "rewriteTypes (callExprsTU Groups ! (K - 1))"
  from run_in_range[OF assms, of Names hasErrorOccurred] obtain FD s' where
    r: "run Query K Names hasErrorOccurred Groups = Inr s'" "CurrentFD s' = Some FD"
      "NamePostfix s' = ?N + length (filter isAggregate ?Ts)"
      "TheRewriter s' =
         map (InsertTextBefore (getBeginLoc FD)) (declarationTexts ?N ?Ts) @
         [ReplaceText (getSourceRange (callExprsTU Groups ! (K - 1)))
            (replacementText ?N (callExprsTU Groups ! (K - 1)))]"
    by blast
  have len: "length (tempNames ?N ?Ts) = length (filter isAggregate ?Ts)"
    by (rule length_tempNames)
  have fresh: "Name \<notin> set Names \<and> (\<exists>k. name_postfix Name = Some k \<and> getMaxNamePostfix Names < k)"
    if "Name \<in> set (tempNames ?N ?Ts)" for Name
  proof -
    from tempNames_postfix[OF that] obtain k where k: "?N \<le> k" "Name = getTmpTransName k"
      by blast
    then have "getMaxNamePostfix Names < k" by simp
    with k show ?thesis
      by (simp add: getTmpTransName_fresh name_postfix_getTmpTransName)
  qed
  from r len fresh show ?thesis
    by (simp only: declarationTexts_tempNames distinct_tempNames) blast
qed

text \<open>
  C6 at \<^verbatim>\<open>foo(i, p, s)\<close> in a translation unit whose identifiers are
  \<^verbatim>\<open>tmp_var_3\<close> and \<^verbatim>\<open>x\<close>: the name generated is \<^verbatim>\<open>tmp_var_4\<close>.
\<close>

theorem generated_names_fresh_witness:
  "getMaxNamePostfix [''tmp_var_3'', ''x''] = 3 \<and>
   tempNames 4 (rewriteTypes call_foo) = [''tmp_var_4''] \<and>
   (\<exists>s' FD. run False 1 [''tmp_var_3'', ''x''] False (unit_of call_foo) = Inr s' \<and>
     CurrentFD s' = Some FD \<and>
     NamePostfix s' = 5 \<and>
     TheRewriter s' =
       [InsertTextBefore (getBeginLoc FD) ''struct Z tmp_var_4;\<newline>'',
        ReplaceText (40, 52) ''(0,0,tmp_var_4,0)''] \<and>
     ''tmp_var_4'' \<notin> set [''tmp_var_3'', ''x''] \<and>
     (\<exists>k. name_postfix ''tmp_var_4'' = Some k \<and> 3 < k))"
proof -
  have h1: "\<not> False" by simp
  have h2: "(0::nat) < 1" by simp
  have h3: "1 \<le> length (callExprsTU (unit_of call_foo))" by code_simp
  have e1: "getMaxNamePostfix [''tmp_var_3'', ''x''] = 3" by code_simp
  have e2: "callExprsTU (unit_of call_foo) ! (1 - 1) = call_foo" by code_simp
  have e3: "tempNames 4 (rewriteTypes call_foo) = [''tmp_var_4'']" by code_simp
  have e4: "filter isAggregate (rewriteTypes call_foo) = [struct_Z]" by code_simp
  have e5: "replacementText 4 call_foo = ''(0,0,tmp_var_4,0)''" by code_simp
  have e6: "getSourceRange call_foo = (40, 52)" by code_simp
  have e7: "getAsString struct_Z = ''struct Z''" by code_simp
  from generated_names_fresh[OF h1 h2 h3, of "[''tmp_var_3'', ''x'']" False]
  show ?thesis
    unfolding e1 e2
    by (simp add: e1 e3 e4 e5 e6 e7)
qed

text \<open>
  C7. When the target ordinal exceeds the number of call expressions visited, a
  transformation run ends with \<^verbatim>\<open>TransMaxInstanceError\<close> and the buffer has no edit.
\<close>

theorem run_out_of_range:
  assumes "\<not> Query" and "length (callExprsTU Groups) < K"
  shows "\<exists>s'. run Query K Names hasErrorOccurred Groups = Inr s' \<and>
     TransError s' = TransMaxInstanceError \<and> TheRewriter s' = []"
proof -
  let ?c = "collect Groups (initial Query K)"
  have q: "\<not> QueryInstanceOnly ?c"
    using assms(1) by (simp add: collect_frame)
  have cnt: "ValidInstanceNum ?c < TransformationCounter ?c"
    using assms(2) by (simp add: collect_count collect_frame)
  have "run Query K Names hasErrorOccurred Groups = Inr (?c\<lparr>TransError := TransMaxInstanceError\<rparr>)"
    unfolding run_def HandleTranslationUnit_def
    by (simp only: q cnt if_False if_True)
  then show ?thesis
    by (simp add: collect_frame)
qed

text \<open>C7 at ordinal 3 in a translation unit with two call expressions.\<close>

theorem run_out_of_range_witness:
  "length (callExprsTU (unit_of call_outer)) = 2 \<and>
   (\<exists>s'. run False 3 [] False (unit_of call_outer) = Inr s' \<and>
     TransError s' = TransMaxInstanceError \<and> TheRewriter s' = [])"
proof -
  have h1: "\<not> False" by simp
  have h2: "length (callExprsTU (unit_of call_outer)) < 3" by code_simp
  have h3: "length (callExprsTU (unit_of call_outer)) = 2" by code_simp
  from run_out_of_range[OF h1 h2, of "[]" False] h3 show ?thesis by blast
qed




text \<open>
  C9. The claim: when the count equals the target ordinal the selector records the call
  expression and its enclosing function. The function recorded is the declaration the
  walk has entered last. In
  \<^verbatim>\<open>int f(void) { int g(struct Z); struct Z s; return g(s); }\<close>
  that is the prototype of \<^verbatim>\<open>g\<close> inside the body, not the function \<^verbatim>\<open>f\<close> that
  encloses the call: the selector records the call and the prototype, which is no
  definition, and the declaration of the temporary variable is inserted at byte 14, inside
  the body of \<^verbatim>\<open>f\<close>, which begins at byte 0.
\<close>

theorem local_prototype_recorded_as_function:
  "TheCallExpr (collect unit_local_prototype (initial False 1)) = Some call_g \<and>
   CurrentFD (collect unit_local_prototype (initial False 1)) = Some fd_local_prototype \<and>
   \<not> isThisDeclarationADefinition fd_local_prototype \<and>
   getBeginLoc fd_main = 0 \<and>
   (case run False 1 [] False unit_local_prototype of
      Inl a \<Rightarrow> [] | Inr s' \<Rightarrow> TheRewriter s') =
     [InsertTextBefore 14 ''struct Z tmp_var_1;\<newline>'', ReplaceText (50, 54) ''(tmp_var_1,0)'']"
  by code_simp

text \<open>
  C10. Whenever the target ordinal is at least 1 and at most the count of call
  expressions after the walk, the recorded call expression and the recorded function are
  both set, so neither assertion of \<^verbatim>\<open>HandleTranslationUnit\<close> fails and the run
  returns.
\<close>

theorem assertions_never_fire:
  assumes "0 < K" and "K \<le> ValidInstanceNum (collect Groups (initial Query K))"
  shows "TheCallExpr (collect Groups (initial Query K)) \<noteq> None \<and>
     CurrentFD (collect Groups (initial Query K)) \<noteq> None \<and>
     (\<exists>s'. run Query K Names hasErrorOccurred Groups = Inr s')"
proof -
  let ?c = "collect Groups (initial Query K)"
  have le: "K \<le> length (callExprsTU Groups)"
    using assms(2) by (simp add: collect_count)
  from collect_selected(1,2)[OF assms(1) le, of Query] collect_selected(3)[OF assms(1) le]
  obtain CE FD where sel: "TheCallExpr ?c = Some CE" "CurrentFD ?c = Some FD"
    by auto
  have "\<exists>s'. HandleTranslationUnit Names hasErrorOccurred ?c = Inr s'"
    unfolding HandleTranslationUnit_def
    by (simp add: sel Let_def)
  with sel show ?thesis
    by (simp add: run_def)
qed

text \<open>C10 at ordinal 2 of \<^verbatim>\<open>outer(inner())\<close>, where the walk counts two calls.\<close>

theorem assertions_never_fire_witness:
  "ValidInstanceNum (collect (unit_of call_outer) (initial False 2)) = 2 \<and>
   TheCallExpr (collect (unit_of call_outer) (initial False 2)) \<noteq> None \<and>
   CurrentFD (collect (unit_of call_outer) (initial False 2)) \<noteq> None \<and>
   (\<exists>s'. run False 2 [] False (unit_of call_outer) = Inr s')"
proof -
  have h1: "(0::nat) < 2" by simp
  have h2: "2 \<le> ValidInstanceNum (collect (unit_of call_outer) (initial False 2))" by code_simp
  have h3: "ValidInstanceNum (collect (unit_of call_outer) (initial False 2)) = 2" by code_simp
  from assertions_never_fire[OF h1 h2, of "[]" False] h3 show ?thesis by blast
qed

end
